theory Spec2Isabelle
  imports Main "HOL-Library.Word" "HOL-Library.AList"
begin

section \<open>Errors, times and tables\<close>

text \<open>
  A Go \<open>error\<close> value is a code and a message, possibly wrapping another error
  (\<open>errors.New\<close>, \<open>errors.Newf\<close>, \<open>errors.Wrap\<close> of \<open>internal/errors\<close>); the nil error is
  \<open>None\<close> of \<open>error option\<close>. A run-time panic is a value of its own type.
\<close>

datatype Code = Inherit | Invalid | FailedPrecondition | Internal

datatype error = New Code string | Wrap error Code string

datatype panic = NilPointerDereference

text \<open>\<open>execute.Time\<close> is an \<open>int64\<close>; it is compared as a signed number.\<close>

type_synonym Time = "64 word"

definition MaxInt64 :: Time where
  "MaxInt64 = 0x7FFFFFFFFFFFFFFF"

text \<open>
  The table abstraction of \<open>flux\<close>, as far as \<open>Process\<close> touches it: a table has a group key
  and hands its column readers, in order, to the callback of \<open>Do\<close>; the iteration itself can
  end with an error. A column reader has its column data in a buffer, known by its address,
  so that two readers with the same content can still be told apart. A float cell is kept
  as its 64 bits.
\<close>

datatype ColType = TInvalid | TBool | TInt | TUInt | TFloat | TString | TTime

datatype fvalue =
  NullV | BoolV bool | IntV "64 word" | UIntV "64 word" | FloatV "64 word" | StringV string
  | TimeV Time

record ColMeta =
  Label :: string
  Type :: ColType

record GroupKey =
  KeyCols :: "ColMeta list"
  KeyValues :: "fvalue list"

type_synonym addr = nat

record ColReader =
  Buffer :: addr
  Cols :: "ColMeta list"
  Data :: "fvalue list list"

record Table =
  Key :: GroupKey
  Buffers :: "ColReader list"
  DoErr :: "error option"

text \<open>
  The callback of \<open>Do\<close> is a closure over what it changes: it takes that state and a
  column reader and gives back its error and the state as it has left it. \<open>Do\<close> stops at
  the first error of the callback; after the last reader it returns the table's own error.
\<close>

fun doBuffers ::
  "('b \<Rightarrow> ColReader \<Rightarrow> error option \<times> 'b) \<Rightarrow> ColReader list \<Rightarrow> 'b \<Rightarrow> error option \<times> 'b" where
  "doBuffers f [] b = (None, b)"
| "doBuffers f (cr # crs) b =
     (case f b cr of (Some e, b') \<Rightarrow> (Some e, b') | (None, b') \<Rightarrow> doBuffers f crs b')"

definition Do ::
  "Table \<Rightarrow> ('b \<Rightarrow> ColReader \<Rightarrow> error option \<times> 'b) \<Rightarrow> 'b \<Rightarrow> error option \<times> 'b" where
  "Do tbl f b =
     (case doBuffers f (Buffers tbl) b of
        (Some e, b') \<Rightarrow> (Some e, b')
      | (None, b') \<Rightarrow> (DoErr tbl, b'))"




section \<open>The collaborators of the partition-merge transformation\<close>

text \<open>
  The calls a \<open>PassthroughDataset\<close> receives. The dataset is not part of the sources at
  hand; it is the downstream side of the transformation, so it is represented by the list
  of calls it has received, in order, and by the answer it gives to each call.
\<close>

datatype DsCall =
  DsProcess Table
  | DsRetractTable GroupKey
  | DsUpdateWatermark Time
  | DsUpdateProcessingTime Time
  | DsFinish "error option"

text \<open>
  What the surrounding packages decide: the error (or nil) with which the dataset answers
  a call, given the calls it has received before; the number of bytes that the column data
  of a reader takes; and the error with which the allocator refuses an allocation.
\<close>

record Collaborators =
  dsReply :: "DsCall list \<Rightarrow> DsCall \<Rightarrow> error option"
  bytesOf :: "ColReader \<Rightarrow> nat"
  quotaError :: error

text \<open>
  Modelled from the spec: \<open>memory.Allocator\<close> (package \<open>memory\<close>) is missing from the
  sources. The spec describes the resource allocator as a running byte counter and a fixed
  quota, shared by all operators of a query: an allocation of \<open>n\<close> bytes fails when the
  current usage plus \<open>n\<close> exceeds the quota. To say what a fresh buffer is, the allocator
  also knows the buffers it has handed out and that are not freed (\<open>live\<close>); a new buffer
  gets an address that none of them has. Quota and counter are \<open>int64\<close> in the code; sizes
  stay far from its bounds and the integers here are unbounded.
\<close>

record Allocator =
  MemoryBytesQuota :: int
  bytesAllocated :: int
  live :: "addr list"

definition freshAddr :: "addr list \<Rightarrow> addr" where
  "freshAddr as = Suc (fold max as 0)"

definition Allocate :: "Collaborators \<Rightarrow> Allocator \<Rightarrow> nat \<Rightarrow> error + addr \<times> Allocator" where
  "Allocate E mem n =
     (if MemoryBytesQuota mem < bytesAllocated mem + int n then Inl (quotaError E)
      else Inr (freshAddr (live mem),
                mem\<lparr>bytesAllocated := bytesAllocated mem + int n,
                    live := live mem @ [freshAddr (live mem)]\<rparr>))"

text \<open>
  Modelled from the spec: \<open>table.NewBufferedBuilder\<close>, \<open>BufferedBuilder.AppendBuffer\<close> and
  \<open>BufferedBuilder.Table\<close> (package \<open>execute/table\<close>) are missing from the sources. The spec
  says that \<open>Process\<close> copies the incoming table's columns into a fresh buffered table,
  using the shared allocator, and never holds a reference into a buffer that the
  allocator may reuse: the builder starts empty under the given group key; for each column
  reader it asks the allocator for a buffer of the reader's size and, if it gets one, adds
  a copy of the reader that lives in that buffer behind the copies before; the table built
  has that key and those copies, and its iteration cannot fail. The spec names no failure
  of \<open>Table\<close>; the builder works on the allocator that it was given.
\<close>

record BufferedBuilder =
  BuilderKey :: GroupKey
  BuilderBuffers :: "ColReader list"
  BuilderAllocator :: Allocator

definition NewBufferedBuilder :: "GroupKey \<Rightarrow> Allocator \<Rightarrow> BufferedBuilder" where
  "NewBufferedBuilder key mem = \<lparr>BuilderKey = key, BuilderBuffers = [], BuilderAllocator = mem\<rparr>"

definition AppendBuffer ::
  "Collaborators \<Rightarrow> BufferedBuilder \<Rightarrow> ColReader \<Rightarrow> error option \<times> BufferedBuilder" where
  "AppendBuffer E b cr =
     (case Allocate E (BuilderAllocator b) (bytesOf E cr) of
        Inl e \<Rightarrow> (Some e, b)
      | Inr (a, mem') \<Rightarrow>
          (None, b\<lparr>BuilderBuffers := BuilderBuffers b @ [cr\<lparr>Buffer := a\<rparr>],
                    BuilderAllocator := mem'\<rparr>))"

definition BuilderTable :: "BufferedBuilder \<Rightarrow> error + Table" where
  "BuilderTable b = Inr \<lparr>Key = BuilderKey b, Buffers = BuilderBuffers b, DoErr = None\<rparr>"

section \<open>PartitionMergeTransformation\<close>

record parallelParentState =
  mark :: Time
  processing :: Time
  finished :: bool

text \<open>
  The transformation: the Go map \<open>parentState\<close> from parent id to a pointer to its state is
  an association list with one entry per key (every pointer is fresh, so writing through
  it is an update of the entry); \<open>dataset\<close> is the list of calls made on the
  \<open>PassthroughDataset\<close> so far. The context, the tracing span, the allocator handle and the
  mutex carry no data of their own.
\<close>

record 'id PartitionMergeTransformation =
  dataset :: "DsCall list"
  parentState :: "('id \<times> parallelParentState) list"

definition newParentState :: parallelParentState where
  "newParentState = \<lparr>mark = 0, processing = 0, finished = False\<rparr>"

definition NewPartitionMergeTransformation :: "'id list \<Rightarrow> 'id PartitionMergeTransformation" where
  "NewPartitionMergeTransformation parents =
     \<lparr>dataset = [],
      parentState = fold (\<lambda>parentID ps. AList.update parentID newParentState ps) parents []\<rparr>"

definition RetractTable ::
  "Collaborators \<Rightarrow> 'id PartitionMergeTransformation \<Rightarrow> 'id \<Rightarrow> GroupKey
     \<Rightarrow> error option \<times> 'id PartitionMergeTransformation" where
  "RetractTable E t parentID key =
     (dsReply E (dataset t) (DsRetractTable key),
      t\<lparr>dataset := dataset t @ [DsRetractTable key]\<rparr>)"

text \<open>
  \<open>Process\<close> works on the allocator that the field \<open>alloc\<close> points to. The allocator is
  shared with the other operators of the query, so its state is an argument of the call,
  and \<open>Process\<close> returns it as it has left it.
\<close>

definition Process ::
  "Collaborators \<Rightarrow> Allocator \<Rightarrow> 'id PartitionMergeTransformation \<Rightarrow> 'id \<Rightarrow> Table
     \<Rightarrow> error option \<times> 'id PartitionMergeTransformation \<times> Allocator" where
  "Process E alloc t parentID tbl =
     (case Do tbl (AppendBuffer E) (NewBufferedBuilder (Key tbl) alloc) of
        (Some err, passthroughBuilder) \<Rightarrow> (Some err, t, BuilderAllocator passthroughBuilder)
      | (None, passthroughBuilder) \<Rightarrow>
          (case BuilderTable passthroughBuilder of
             Inl err \<Rightarrow> (Some err, t, BuilderAllocator passthroughBuilder)
           | Inr out \<Rightarrow>
               (dsReply E (dataset t) (DsProcess out),
                t\<lparr>dataset := dataset t @ [DsProcess out]\<rparr>,
                BuilderAllocator passthroughBuilder)))"

definition minMark :: "parallelParentState list \<Rightarrow> Time" where
  "minMark states =
     fold (\<lambda>state min. if mark state <s min then mark state else min) states MaxInt64"

definition minProcessing :: "parallelParentState list \<Rightarrow> Time" where
  "minProcessing states =
     fold (\<lambda>state min. if processing state <s min then processing state else min) states MaxInt64"

definition allFinished :: "parallelParentState list \<Rightarrow> bool" where
  "allFinished states = fold (\<lambda>state fin. fin \<and> finished state) states True"

definition UpdateWatermark ::
  "Collaborators \<Rightarrow> 'id PartitionMergeTransformation \<Rightarrow> 'id \<Rightarrow> Time
     \<Rightarrow> panic + error option \<times> 'id PartitionMergeTransformation" where
  "UpdateWatermark E t parentID m =
     (case map_of (parentState t) parentID of
        None \<Rightarrow> Inl NilPointerDereference
      | Some state \<Rightarrow>
          (let ps = AList.update parentID (state\<lparr>mark := m\<rparr>) (parentState t);
               min = minMark (map snd ps)
           in Inr (dsReply E (dataset t) (DsUpdateWatermark min),
                   t\<lparr>dataset := dataset t @ [DsUpdateWatermark min], parentState := ps\<rparr>)))"

definition UpdateProcessingTime ::
  "Collaborators \<Rightarrow> 'id PartitionMergeTransformation \<Rightarrow> 'id \<Rightarrow> Time
     \<Rightarrow> panic + error option \<times> 'id PartitionMergeTransformation" where
  "UpdateProcessingTime E t parentID pt =
     (case map_of (parentState t) parentID of
        None \<Rightarrow> Inl NilPointerDereference
      | Some state \<Rightarrow>
          (let ps = AList.update parentID (state\<lparr>processing := pt\<rparr>) (parentState t);
               min = minProcessing (map snd ps)
           in Inr (dsReply E (dataset t) (DsUpdateProcessingTime min),
                   t\<lparr>dataset := dataset t @ [DsUpdateProcessingTime min], parentState := ps\<rparr>)))"

definition Finish ::
  "'id PartitionMergeTransformation \<Rightarrow> 'id \<Rightarrow> error option
     \<Rightarrow> panic + 'id PartitionMergeTransformation" where
  "Finish t parentID err =
     (case map_of (parentState t) parentID of
        None \<Rightarrow> Inl NilPointerDereference
      | Some state \<Rightarrow>
          (let ps = AList.update parentID (state\<lparr>finished := True\<rparr>) (parentState t);
               d1 = (if err \<noteq> None then dataset t @ [DsFinish err] else dataset t);
               d2 = (if allFinished (map snd ps) then d1 @ [DsFinish None] else d1)
           in Inr (t\<lparr>dataset := d2, parentState := ps\<rparr>)))"

text \<open>
  The calls a parent makes on the transformation, and a sequence of them run one after
  the other (the mutex serialises them). A panic ends the run. A \<open>Process\<close> call comes
  with the state in which it finds the shared allocator: the other operators allocate and
  free between the calls.
\<close>

datatype 'id Call =
  CProcess 'id Table Allocator
  | CRetractTable 'id GroupKey
  | CUpdateWatermark 'id Time
  | CUpdateProcessingTime 'id Time
  | CFinish 'id "error option"

fun step ::
  "Collaborators \<Rightarrow> 'id PartitionMergeTransformation \<Rightarrow> 'id Call
     \<Rightarrow> panic + 'id PartitionMergeTransformation" where
  "step E t (CProcess parentID tbl alloc) = Inr (fst (snd (Process E alloc t parentID tbl)))"
| "step E t (CRetractTable parentID key) = Inr (snd (RetractTable E t parentID key))"
| "step E t (CUpdateWatermark parentID m) = map_sum (\<lambda>p. p) snd (UpdateWatermark E t parentID m)"
| "step E t (CUpdateProcessingTime parentID pt) = map_sum (\<lambda>p. p) snd (UpdateProcessingTime E t parentID pt)"
| "step E t (CFinish parentID err) = Finish t parentID err"

fun run ::
  "Collaborators \<Rightarrow> 'id PartitionMergeTransformation \<Rightarrow> 'id Call list
     \<Rightarrow> panic + 'id PartitionMergeTransformation" where
  "run E t [] = Inr t"
| "run E t (c # cs) = (case step E t c of Inl p \<Rightarrow> Inl p | Inr t' \<Rightarrow> run E t' cs)"

section \<open>What the parents supplied and what the dataset received\<close>

text \<open>
  Observations on a run, used to state the properties: the watermarks (processing times)
  a parent has supplied, in order; the latest of them, which is 0 when the parent has
  supplied none, as in the state made by \<open>new(parallelParentState)\<close>; whether a parent has
  called \<open>Finish\<close>; and the watermarks (processing times) the dataset has received.
\<close>

definition suppliedMarks :: "'id \<Rightarrow> 'id Call list \<Rightarrow> Time list" where
  "suppliedMarks p calls = [m. CUpdateWatermark q m \<leftarrow> calls, q = p]"

definition suppliedProcessing :: "'id \<Rightarrow> 'id Call list \<Rightarrow> Time list" where
  "suppliedProcessing p calls = [m. CUpdateProcessingTime q m \<leftarrow> calls, q = p]"

definition latestMark :: "'id \<Rightarrow> 'id Call list \<Rightarrow> Time" where
  "latestMark p calls = last (0 # suppliedMarks p calls)"

definition latestProcessing :: "'id \<Rightarrow> 'id Call list \<Rightarrow> Time" where
  "latestProcessing p calls = last (0 # suppliedProcessing p calls)"

definition finishedBy :: "'id \<Rightarrow> 'id Call list \<Rightarrow> bool" where
  "finishedBy p calls \<longleftrightarrow> p \<in> set [q. CFinish q e \<leftarrow> calls]"

definition forwardedWatermarks :: "DsCall list \<Rightarrow> Time list" where
  "forwardedWatermarks ds = [m. DsUpdateWatermark m \<leftarrow> ds]"

definition forwardedProcessing :: "DsCall list \<Rightarrow> Time list" where
  "forwardedProcessing ds = [m. DsUpdateProcessingTime m \<leftarrow> ds]"

text \<open>\<open>w\<close> is the least of the values \<open>latest q\<close> over the parents \<open>q\<close>, in the signed order.\<close>

definition minimumOver :: "'id list \<Rightarrow> ('id \<Rightarrow> Time) \<Rightarrow> Time \<Rightarrow> bool" where
  "minimumOver parents latest w \<longleftrightarrow>
     (\<forall>q\<in>set parents. w \<le>s latest q) \<and> (\<exists>q\<in>set parents. w = latest q)"

text \<open>
  The minimum as the specification words it: the least of the latest values among the
  parents that have supplied one so far.
\<close>

definition minimumOfSupplied :: "'id list \<Rightarrow> 'id Call list \<Rightarrow> Time \<Rightarrow> bool" where
  "minimumOfSupplied parents calls w \<longleftrightarrow>
     (\<forall>q\<in>set parents. suppliedMarks q calls \<noteq> [] \<longrightarrow> w \<le>s last (suppliedMarks q calls))
     \<and> (\<exists>q\<in>set parents. suppliedMarks q calls \<noteq> [] \<and> w = last (suppliedMarks q calls))"

text \<open>The loop of both update methods, on the list of the values it reads.\<close>

definition minTime :: "Time list \<Rightarrow> Time \<Rightarrow> Time" where
  "minTime ts a = fold (\<lambda>x m. if x <s m then x else m) ts a"

text \<open>
  Collaborators for the examples: the dataset answers nil, a reader takes eight bytes for
  each of its cells, and the allocator refuses with a fixed error.
\<close>

definition quietCollaborators :: Collaborators where
  "quietCollaborators =
     \<lparr>dsReply = (\<lambda>_ _. None),
      bytesOf = (\<lambda>cr. 8 * length (concat (Data cr))),
      quotaError = New Internal ''memory allocation limit reached''\<rparr>"


section \<open>Bytecode synthesis\<close>

text \<open>
  The instruction bytes of package \<open>bytecode/types\<close> are constants declared outside the
  sources at hand; they are taken as a parameter. The \<open>interface{}\<close> argument of an opcode
  is the integer 0, a \<open>LoadValue\<close> or an \<open>AppendSideEffect\<close>; values and nodes are opaque.
  Of the interpreter, the fields that the synthesis touches are kept.
\<close>

type_synonym byte = "8 word"

record bctypes =
  IN_CONS_SIDE_EFFECTS :: byte
  IN_LOAD_VALUE :: byte
  IN_APPEND_SIDE_EFFECT :: byte
  IN_PROGRAM_START :: byte

datatype ('v, 'n) Args = IntArg int | LoadValue 'v | AppendSideEffect 'n

record ('v, 'n) OpCode =
  In :: byte
  Args :: "('v, 'n) Args"

record ('v, 'n) SideEffect =
  Node :: 'n
  Value :: 'v

record ('v, 'n) Interpreter =
  sideEffects :: "('v, 'n) SideEffect list"
  pkgName :: string
  code :: "('v, 'n) OpCode list"

definition appendCode ::
  "('v, 'n) Interpreter \<Rightarrow> byte \<Rightarrow> ('v, 'n) Args \<Rightarrow> ('v, 'n) Interpreter" where
  "appendCode itrp in' args = itrp\<lparr>code := code itrp @ [\<lparr>In = in', Args = args\<rparr>]\<rparr>"

definition SynthesisTo ::
  "bctypes \<Rightarrow> ('v, 'n) Interpreter \<Rightarrow> ('v, 'n) SideEffect \<Rightarrow> error option \<times> ('v, 'n) Interpreter" where
  "SynthesisTo B itrp sideEffect =
     (let itrp1 = appendCode itrp (IN_CONS_SIDE_EFFECTS B) (IntArg 0);
          lv = LoadValue (Value sideEffect);
          itrp2 = appendCode itrp1 (IN_LOAD_VALUE B) lv;
          ase = AppendSideEffect (Node sideEffect);
          itrp3 = appendCode itrp2 (IN_APPEND_SIDE_EFFECT B) ase;
          itrp4 = appendCode itrp3 (IN_PROGRAM_START B) (IntArg 0)
      in (None, itrp4))"

section \<open>The test executor\<close>

text \<open>
  \<open>testExecutor.Run\<close> is sequential; what the packages it calls deliver is given by an
  \<open>Execution\<close>: the errors of \<open>json.Marshal\<close>, \<open>Compile\<close> and \<open>Start\<close>, the results the
  iterator hands out (for each, its tables in stringified form and the error of
  \<open>Tables().Do\<close>), the error of \<open>results.Err()\<close>, and the number of \<open>Errorf\<close> calls that
  \<open>AssertSize\<close> of the Arrow checked allocator makes when it is asked. \<open>Run\<close> returns its
  error together with the order of its calls, the deferred ones last. The counter \<open>errs\<close>
  counts log lines and is kept as an unbounded integer.
\<close>

record consoleLogger =
  errs :: int

definition Errorf :: "consoleLogger \<Rightarrow> consoleLogger" where
  "Errorf c = c\<lparr>errs := errs c + 1\<rparr>"

record ResultTables =
  stringified :: "string list"
  tablesErr :: "error option"

record Execution =
  marshalErr :: "error option"
  compileErr :: "error option"
  startErr :: "error option"
  queryResults :: "ResultTables list"
  resultsErr :: "error option"
  assertSizeReports :: nat

datatype Event =
  EvMarshal | EvInject | EvCompile | EvStart | EvTablesDo nat | EvRelease | EvAssertSize
  | EvQueryDone | EvSpanFinish

fun consumeResults ::
  "ResultTables list \<Rightarrow> nat \<Rightarrow> string \<Rightarrow> Event list \<Rightarrow> error option \<times> string \<times> Event list" where
  "consumeResults [] i output tr = (None, output, tr)"
| "consumeResults (result # rest) i output tr =
     (case tablesErr result of
        Some err \<Rightarrow> (Some err, output @ concat (stringified result), tr @ [EvTablesDo i])
      | None \<Rightarrow> consumeResults rest (Suc i) (output @ concat (stringified result)) (tr @ [EvTablesDo i]))"

definition Run :: "Execution \<Rightarrow> error option \<times> Event list" where
  "Run x =
     (case marshalErr x of
        Some err \<Rightarrow> (Some err, [EvMarshal])
      | None \<Rightarrow>
     (case compileErr x of
        Some err \<Rightarrow> (Some (Wrap err Invalid ''failed to compile''),
                     [EvMarshal, EvInject, EvCompile, EvSpanFinish])
      | None \<Rightarrow>
     (case startErr x of
        Some err \<Rightarrow> (Some (Wrap err Inherit ''error while executing program''),
                     [EvMarshal, EvInject, EvCompile, EvStart, EvSpanFinish])
      | None \<Rightarrow>
     (case consumeResults (queryResults x) 0 [] [EvMarshal, EvInject, EvCompile, EvStart] of
        (Some err, output, tr) \<Rightarrow> (Some err, tr @ [EvQueryDone, EvSpanFinish])
      | (None, output, tr) \<Rightarrow>
          (let err = resultsErr x;
               err = (if err = None \<and> length output > 0
                      then Some (New FailedPrecondition
                             (''Expected test to have no output. Got:'' @ [CHR 0x0A] @ output))
                      else err);
               logger = (Errorf ^^ assertSizeReports x) \<lparr>errs = 0\<rparr>;
               err = (if errs logger > 0
                      then Some (New FailedPrecondition ''Memory leak detected'')
                      else err)
           in (err, tr @ [EvRelease, EvAssertSize, EvQueryDone, EvSpanFinish]))))))"

text \<open>
  All result streams were consumed: nothing failed before the loop and no \<open>Tables().Do\<close>
  returned an error. The error of the execution itself is that of \<open>results.Err()\<close>, or
  the complaint about unexpected output.
\<close>

definition resultsConsumed :: "Execution \<Rightarrow> bool" where
  "resultsConsumed x \<longleftrightarrow>
     marshalErr x = None \<and> compileErr x = None \<and> startErr x = None
     \<and> (\<forall>r\<in>set (queryResults x). tablesErr r = None)"

definition executionError :: "Execution \<Rightarrow> error option" where
  "executionError x =
     (if resultsErr x = None \<and> concat (concat (map stringified (queryResults x))) \<noteq> []
      then Some (New FailedPrecondition
             (''Expected test to have no output. Got:'' @ [CHR 0x0A]
                @ concat (concat (map stringified (queryResults x)))))
      else resultsErr x)"

section \<open>Attribute validation\<close>

text \<open>
  Modelled from the spec: \<open>plan.ValidateAttributes\<close>, the plan nodes and their attributes
  (package \<open>plan\<close>) are missing from the sources; only \<open>TestParallel_Execute\<close>, which
  calls the validator, is there. Following section 4.1 of the spec, the validator looks at
  every edge (predecessor, successor): every attribute the successor requires must be an
  output attribute of the predecessor with an equal value, and an output attribute of the
  predecessor must be required by the successor. The spec asks the latter of every output
  attribute; the test accepts the plans \<open>parallel-from\<close> and \<open>parallel-from-filter\<close>, in
  which no successor of \<open>merge\<close> requires its parallel-merge output, and rejects
  \<open>from-missing-required\<close>, in which a successor does not require a parallel-run output.
  So the obligation belongs to the attribute (\<open>SuccessorsMustRequire\<close>): parallel-run
  carries it, parallel-merge does not. The order in which violations are looked for is
  not fixed by the spec; no statement below depends on it. An attribute map is an
  association list, written through \<open>AList.update\<close> and read through \<open>map_of\<close>.
\<close>

datatype PhysicalAttr = ParallelRunAttribute int | ParallelMergeAttribute int

definition ParallelRunKey :: string where
  "ParallelRunKey = ''parallel-run''"

definition ParallelMergeKey :: string where
  "ParallelMergeKey = ''parallel-merge''"

fun SuccessorsMustRequire :: "PhysicalAttr \<Rightarrow> bool" where
  "SuccessorsMustRequire (ParallelRunAttribute _) = True"
| "SuccessorsMustRequire (ParallelMergeAttribute _) = False"

record PhysicalPlanNode =
  ID :: string
  RequiredAttrs :: "(string \<times> PhysicalAttr) list"
  OutputAttrs :: "(string \<times> PhysicalAttr) list"

text \<open>The helpers of the test file that build a node and set its attributes.\<close>

definition CreatePhysicalNode :: "string \<Rightarrow> PhysicalPlanNode" where
  "CreatePhysicalNode id' = \<lparr>ID = id', RequiredAttrs = [], OutputAttrs = []\<rparr>"

definition SetOutputAttr :: "string \<Rightarrow> PhysicalAttr \<Rightarrow> PhysicalPlanNode \<Rightarrow> PhysicalPlanNode" where
  "SetOutputAttr name attr node = node\<lparr>OutputAttrs := AList.update name attr (OutputAttrs node)\<rparr>"

definition SetRequiredAttr :: "string \<Rightarrow> PhysicalAttr \<Rightarrow> PhysicalPlanNode \<Rightarrow> PhysicalPlanNode" where
  "SetRequiredAttr name attr node = node\<lparr>RequiredAttrs := AList.update name attr (RequiredAttrs node)\<rparr>"

definition createPhysicalNode ::
  "string \<Rightarrow> (PhysicalPlanNode \<Rightarrow> PhysicalPlanNode) list \<Rightarrow> PhysicalPlanNode" where
  "createPhysicalNode id' opts = fold (\<lambda>opt node. opt node) opts (CreatePhysicalNode id')"

text \<open>
  A plan as \<open>plantest.PlanSpec\<close> gives it: nodes, and edges as pairs of indices into them
  (predecessor first). An edge that names no node contributes nothing.
\<close>

record PlanSpec =
  Nodes :: "PhysicalPlanNode list"
  Edges :: "(nat \<times> nat) list"

definition edgesOf :: "PlanSpec \<Rightarrow> (PhysicalPlanNode \<times> PhysicalPlanNode) list" where
  "edgesOf plan =
     [(Nodes plan ! p, Nodes plan ! s).
        (p, s) \<leftarrow> Edges plan, p < length (Nodes plan) \<and> s < length (Nodes plan)]"

text \<open>
  The three errors, each with the attribute key and the two node ids in the order in which
  the message names them.
\<close>

datatype ValidationError =
  MissingFromPredecessor string string string
  | NotRequiredBySuccessor string string string
  | DoesNotMatchPredecessor string string string

fun checkRequired ::
  "PhysicalPlanNode \<Rightarrow> PhysicalPlanNode \<Rightarrow> (string \<times> PhysicalAttr) list \<Rightarrow> ValidationError option" where
  "checkRequired pred succ [] = None"
| "checkRequired pred succ ((key, attr) # rest) =
     (case map_of (OutputAttrs pred) key of
        None \<Rightarrow> Some (MissingFromPredecessor key (ID succ) (ID pred))
      | Some out \<Rightarrow>
          if out = attr then checkRequired pred succ rest
          else Some (DoesNotMatchPredecessor key (ID succ) (ID pred)))"

fun checkOutputs ::
  "PhysicalPlanNode \<Rightarrow> PhysicalPlanNode \<Rightarrow> (string \<times> PhysicalAttr) list \<Rightarrow> ValidationError option" where
  "checkOutputs pred succ [] = None"
| "checkOutputs pred succ ((key, attr) # rest) =
     (if SuccessorsMustRequire attr \<and> map_of (RequiredAttrs succ) key = None
      then Some (NotRequiredBySuccessor key (ID pred) (ID succ))
      else checkOutputs pred succ rest)"

definition checkEdge :: "PhysicalPlanNode \<times> PhysicalPlanNode \<Rightarrow> ValidationError option" where
  "checkEdge e =
     (case checkRequired (fst e) (snd e) (RequiredAttrs (snd e)) of
        Some err \<Rightarrow> Some err
      | None \<Rightarrow> checkOutputs (fst e) (snd e) (OutputAttrs (fst e)))"

fun firstError :: "('a \<Rightarrow> 'e option) \<Rightarrow> 'a list \<Rightarrow> 'e option" where
  "firstError f [] = None"
| "firstError f (x # xs) = (case f x of Some err \<Rightarrow> Some err | None \<Rightarrow> firstError f xs)"

definition ValidateAttributes :: "PlanSpec \<Rightarrow> ValidationError option" where
  "ValidateAttributes plan = firstError checkEdge (edgesOf plan)"

text \<open>
  The text of the errors, as the test expects it. \<open>quoted\<close> is \<open>%q\<close> on a string that
  needs no escaping.
\<close>

definition quoted :: "string \<Rightarrow> string" where
  "quoted s = CHR 0x22 # s @ [CHR 0x22]"

fun errorMessage :: "ValidationError \<Rightarrow> string" where
  "errorMessage (MissingFromPredecessor key succ pred) =
     ''invalid physical query plan; attribute '' @ quoted key @ '' required by '' @ quoted succ
       @ '' is missing from predecessor '' @ quoted pred"
| "errorMessage (NotRequiredBySuccessor key pred succ) =
     ''invalid physical query plan; attribute '' @ quoted key @ '' on '' @ quoted pred
       @ '' must be required by all successors, but isn'' @ [CHR 0x27] @ ''t on '' @ quoted succ"
| "errorMessage (DoesNotMatchPredecessor key succ pred) =
     ''invalid physical query plan; attribute '' @ quoted key @ '' required by '' @ quoted succ
       @ '' does not match attribute in predecessor '' @ quoted pred"

text \<open>
  The conditions of the claim: every required attribute is matched by an equal output
  attribute of the predecessor; every output attribute that obliges the successors is
  required by the successor; and, as the specification words it, every output attribute
  is required by the successor. \<open>violation\<close> says that an error names a real violation,
  with its key and node ids.
\<close>

definition requiredMatched :: "PlanSpec \<Rightarrow> bool" where
  "requiredMatched plan \<longleftrightarrow>
     (\<forall>e\<in>set (edgesOf plan). \<forall>r\<in>set (RequiredAttrs (snd e)).
        map_of (OutputAttrs (fst e)) (fst r) = Some (snd r))"

definition obligingOutputsRequired :: "PlanSpec \<Rightarrow> bool" where
  "obligingOutputsRequired plan \<longleftrightarrow>
     (\<forall>e\<in>set (edgesOf plan). \<forall>out\<in>set (OutputAttrs (fst e)).
        SuccessorsMustRequire (snd out) \<longrightarrow> map_of (RequiredAttrs (snd e)) (fst out) \<noteq> None)"

definition allOutputsRequired :: "PlanSpec \<Rightarrow> bool" where
  "allOutputsRequired plan \<longleftrightarrow>
     (\<forall>e\<in>set (edgesOf plan). \<forall>out\<in>set (OutputAttrs (fst e)).
        map_of (RequiredAttrs (snd e)) (fst out) \<noteq> None)"

definition violation :: "PlanSpec \<Rightarrow> ValidationError \<Rightarrow> bool" where
  "violation plan err \<longleftrightarrow>
     (\<exists>e\<in>set (edgesOf plan).
        (\<exists>r\<in>set (RequiredAttrs (snd e)).
           (map_of (OutputAttrs (fst e)) (fst r) = None
              \<and> err = MissingFromPredecessor (fst r) (ID (snd e)) (ID (fst e)))
           \<or> (\<exists>out. map_of (OutputAttrs (fst e)) (fst r) = Some out \<and> out \<noteq> snd r
              \<and> err = DoesNotMatchPredecessor (fst r) (ID (snd e)) (ID (fst e))))
        \<or> (\<exists>out\<in>set (OutputAttrs (fst e)).
             SuccessorsMustRequire (snd out) \<and> map_of (RequiredAttrs (snd e)) (fst out) = None
             \<and> err = NotRequiredBySuccessor (fst out) (ID (fst e)) (ID (snd e))))"

text \<open>The five plans of \<open>TestParallel_Execute\<close>, as far as validation reads them.\<close>

definition testEdges :: "(nat \<times> nat) list" where
  "testEdges = [(0, 1), (1, 2), (2, 3)]"

definition parallelFrom :: PlanSpec where
  "parallelFrom =
     \<lparr>Nodes =
        [createPhysicalNode ''from-test'' [SetOutputAttr ParallelRunKey (ParallelRunAttribute 2)],
         createPhysicalNode ''merge''
           [SetRequiredAttr ParallelRunKey (ParallelRunAttribute 2),
            SetOutputAttr ParallelMergeKey (ParallelMergeAttribute 2)],
         createPhysicalNode ''filter'' [],
         createPhysicalNode ''yield'' []],
      Edges = testEdges\<rparr>"

definition parallelFromFilter :: PlanSpec where
  "parallelFromFilter =
     \<lparr>Nodes =
        [createPhysicalNode ''from-test'' [SetOutputAttr ParallelRunKey (ParallelRunAttribute 2)],
         createPhysicalNode ''filter''
           [SetRequiredAttr ParallelRunKey (ParallelRunAttribute 2),
            SetOutputAttr ParallelRunKey (ParallelRunAttribute 2)],
         createPhysicalNode ''merge''
           [SetRequiredAttr ParallelRunKey (ParallelRunAttribute 2),
            SetOutputAttr ParallelMergeKey (ParallelMergeAttribute 2)],
         createPhysicalNode ''yield'' []],
      Edges = testEdges\<rparr>"

definition fromMissingOutput :: PlanSpec where
  "fromMissingOutput =
     \<lparr>Nodes =
        [createPhysicalNode ''from-test'' [],
         createPhysicalNode ''filter''
           [SetRequiredAttr ParallelRunKey (ParallelRunAttribute 2),
            SetOutputAttr ParallelRunKey (ParallelRunAttribute 2)],
         createPhysicalNode ''merge''
           [SetRequiredAttr ParallelRunKey (ParallelRunAttribute 2),
            SetOutputAttr ParallelMergeKey (ParallelMergeAttribute 2)],
         createPhysicalNode ''yield'' []],
      Edges = testEdges\<rparr>"

definition fromMissingRequired :: PlanSpec where
  "fromMissingRequired =
     \<lparr>Nodes =
        [createPhysicalNode ''from-test'' [SetOutputAttr ParallelRunKey (ParallelRunAttribute 2)],
         createPhysicalNode ''filter'' [SetOutputAttr ParallelRunKey (ParallelRunAttribute 2)],
         createPhysicalNode ''merge''
           [SetRequiredAttr ParallelRunKey (ParallelRunAttribute 2),
            SetOutputAttr ParallelMergeKey (ParallelMergeAttribute 2)],
         createPhysicalNode ''yield'' []],
      Edges = testEdges\<rparr>"

definition fromFactorMismatch :: PlanSpec where
  "fromFactorMismatch =
     \<lparr>Nodes =
        [createPhysicalNode ''from-test'' [SetOutputAttr ParallelRunKey (ParallelRunAttribute 2)],
         createPhysicalNode ''filter''
           [SetRequiredAttr ParallelRunKey (ParallelRunAttribute 1),
            SetOutputAttr ParallelRunKey (ParallelRunAttribute 1)],
         createPhysicalNode ''merge''
           [SetRequiredAttr ParallelRunKey (ParallelRunAttribute 1),
            SetOutputAttr ParallelMergeKey (ParallelMergeAttribute 1)],
         createPhysicalNode ''yield'' []],
      Edges = testEdges\<rparr>"

section \<open>Auxiliary facts\<close>

lemma finishedBy_iff: "finishedBy p calls \<longleftrightarrow> (\<exists>e. CFinish p e \<in> set calls)"
  by (induction calls) (auto simp: finishedBy_def split: Call.splits)

lemma suppliedMarks_append: "suppliedMarks p (xs @ ys) = suppliedMarks p xs @ suppliedMarks p ys"
  by (simp add: suppliedMarks_def)

lemma suppliedMarks_single: "suppliedMarks p [c] = (case c of CUpdateWatermark q m \<Rightarrow> if q = p then [m] else [] | _ \<Rightarrow> [])"
  by (simp add: suppliedMarks_def split: Call.splits)

lemma minMark_minTime: "minMark states = minTime (map mark states) MaxInt64"
  by (simp add: minMark_def minTime_def fold_map comp_def)

lemma minProcessing_minTime: "minProcessing states = minTime (map processing states) MaxInt64"
  by (simp add: minProcessing_def minTime_def fold_map comp_def)

lemma minTime_le_init: "minTime ts a \<le>s a"
  by (induction ts arbitrary: a) (auto simp: minTime_def word_sle_eq word_sless_alt intro: order_trans less_imp_le)

lemma minTime_le_elem: "x \<in> set ts \<Longrightarrow> minTime ts a \<le>s x"
proof (induction ts arbitrary: a)
  case Nil then show ?case by simp
next
  case (Cons y ys)
  show ?case
  proof (cases "x = y")
    case True
    have "minTime ys (if y <s a then y else a) \<le>s (if y <s a then y else a)" by (rule minTime_le_init)
    then show ?thesis using True by (auto simp: minTime_def word_sle_eq word_sless_alt split: if_splits)
  next
    case False
    with Cons show ?thesis by (simp add: minTime_def)
  qed
qed

lemma minTime_in: "minTime ts a \<in> insert a (set ts)"
  by (induction ts arbitrary: a) (auto simp: minTime_def)

lemma sle_MaxInt64: "x \<le>s MaxInt64"
proof -
  have "sint x < 2 ^ (LENGTH(64) - 1)" by (rule sint_lt)
  then show ?thesis by (simp add: word_sle_eq MaxInt64_def)
qed

lemma run_snoc:
  "run E t (cs @ [c]) = (case run E t cs of Inl p \<Rightarrow> Inl p | Inr t' \<Rightarrow> step E t' c)"
  by (induction cs arbitrary: t) (auto split: sum.splits)

lemma update_existing_keys:
  "map_of al k = Some v \<Longrightarrow> map fst (AList.update k w al) = map fst al"
  by (auto simp: update_keys dest: map_of_SomeD intro: rev_image_eqI)

lemma step_keys:
  "step E t c = Inr t' \<Longrightarrow> map fst (parentState t') = map fst (parentState t)"
  by (cases c)
     (auto simp: Process_def RetractTable_def UpdateWatermark_def UpdateProcessingTime_def
        Finish_def Let_def update_existing_keys split: sum.splits option.splits prod.splits)

lemma run_keys:
  "run E t cs = Inr t' \<Longrightarrow> map fst (parentState t') = map fst (parentState t)"
proof (induction cs arbitrary: t)
  case Nil then show ?case by simp
next
  case (Cons c cs)
  then show ?case by (auto split: sum.splits dest: step_keys)
qed

lemma fold_update_keys:
  "fst ` set (fold (\<lambda>p al. AList.update p v al) ps al) = set ps \<union> fst ` set al"
  by (induction ps arbitrary: al) (auto simp: dom_update)

lemma fold_update_distinct:
  "distinct (map fst al) \<Longrightarrow> distinct (map fst (fold (\<lambda>p al. AList.update p v al) ps al))"
  by (induction ps arbitrary: al) (auto simp: distinct_update)

lemma fold_update_values:
  "(\<forall>x \<in> set al. snd x = v) \<Longrightarrow> x \<in> set (fold (\<lambda>p al. AList.update p v al) ps al) \<Longrightarrow> snd x = v"
proof (induction ps arbitrary: al)
  case Nil then show ?case by simp
next
  case (Cons p ps)
  have "\<forall>x \<in> set (AList.update p v al). snd x = v"
    using Cons.prems(1) by (induction al) auto
  with Cons show ?case by simp
qed

lemma New_keys: "fst ` set (parentState (NewPartitionMergeTransformation parents)) = set parents"
  by (simp add: NewPartitionMergeTransformation_def fold_update_keys)

lemma New_distinct: "distinct (map fst (parentState (NewPartitionMergeTransformation parents)))"
  by (simp add: NewPartitionMergeTransformation_def fold_update_distinct)

lemma New_state:
  "map_of (parentState (NewPartitionMergeTransformation parents)) p = Some st \<Longrightarrow> st = newParentState"
  using fold_update_values[of "[]" newParentState "(p, st)" parents]
  by (auto simp: NewPartitionMergeTransformation_def dest: map_of_SomeD)

lemma step_state:
  assumes "step E t c = Inr t'" and "map_of (parentState t') p = Some st'"
  shows "\<exists>st. map_of (parentState t) p = Some st
      \<and> mark st' = last (mark st # suppliedMarks p [c])
      \<and> processing st' = last (processing st # suppliedProcessing p [c])
      \<and> (finished st' \<longleftrightarrow> finished st \<or> finishedBy p [c])"
  using assms
  by (cases c)
     (auto simp: Process_def RetractTable_def UpdateWatermark_def UpdateProcessingTime_def
        Finish_def Let_def update_conv' suppliedMarks_def suppliedProcessing_def finishedBy_iff
        split: sum.splits option.splits if_splits prod.splits)

lemma suppliedMarks_Cons: "suppliedMarks p (c # cs) = suppliedMarks p [c] @ suppliedMarks p cs"
  by (simp add: suppliedMarks_def)

lemma suppliedProcessing_Cons:
  "suppliedProcessing p (c # cs) = suppliedProcessing p [c] @ suppliedProcessing p cs"
  by (simp add: suppliedProcessing_def)

lemma finishedBy_Cons: "finishedBy p (c # cs) \<longleftrightarrow> finishedBy p [c] \<or> finishedBy p cs"
  by (auto simp: finishedBy_iff)

lemma last_last: "last (last (x # xs) # ys) = last (x # xs @ ys)"
  by (cases ys) auto

lemma run_state:
  "run E t0 calls = Inr t \<Longrightarrow> map_of (parentState t) p = Some st \<Longrightarrow>
   \<exists>st0. map_of (parentState t0) p = Some st0
      \<and> mark st = last (mark st0 # suppliedMarks p calls)
      \<and> processing st = last (processing st0 # suppliedProcessing p calls)
      \<and> (finished st \<longleftrightarrow> finished st0 \<or> finishedBy p calls)"
proof (induction calls arbitrary: t0)
  case Nil
  then show ?case by (simp add: suppliedMarks_def suppliedProcessing_def finishedBy_iff)
next
  case (Cons c cs)
  from Cons.prems(1) obtain t1 where s: "step E t0 c = Inr t1" and r: "run E t1 cs = Inr t"
    by (auto split: sum.splits)
  from Cons.IH[OF r Cons.prems(2)] obtain st1 where
    1: "map_of (parentState t1) p = Some st1"
    "mark st = last (mark st1 # suppliedMarks p cs)"
    "processing st = last (processing st1 # suppliedProcessing p cs)"
    "finished st \<longleftrightarrow> finished st1 \<or> finishedBy p cs"
    by blast
  from step_state[OF s 1(1)] obtain st0 where
    0: "map_of (parentState t0) p = Some st0"
    "mark st1 = last (mark st0 # suppliedMarks p [c])"
    "processing st1 = last (processing st0 # suppliedProcessing p [c])"
    "finished st1 \<longleftrightarrow> finished st0 \<or> finishedBy p [c]"
    by blast
  have "mark st = last (mark st0 # suppliedMarks p (c # cs))"
    unfolding 1(2) 0(2) suppliedMarks_Cons[of p c cs] by (rule last_last)
  moreover have "processing st = last (processing st0 # suppliedProcessing p (c # cs))"
    unfolding 1(3) 0(3) suppliedProcessing_Cons[of p c cs] by (rule last_last)
  moreover have "finished st \<longleftrightarrow> finished st0 \<or> finishedBy p (c # cs)"
    unfolding 1(4) 0(4) finishedBy_Cons[of p c cs] by blast
  ultimately show ?case using 0(1) by blast
qed

lemma reach_state:
  assumes "run E (NewPartitionMergeTransformation parents) calls = Inr t"
    and "map_of (parentState t) p = Some st"
  shows "mark st = latestMark p calls \<and> processing st = latestProcessing p calls
     \<and> (finished st \<longleftrightarrow> finishedBy p calls)"
proof -
  from run_state[OF assms] obtain st0 where
    0: "map_of (parentState (NewPartitionMergeTransformation parents)) p = Some st0"
    "mark st = last (mark st0 # suppliedMarks p calls)"
    "processing st = last (processing st0 # suppliedProcessing p calls)"
    "finished st \<longleftrightarrow> finished st0 \<or> finishedBy p calls"
    by blast
  from New_state[OF 0(1)] have "st0 = newParentState" .
  with 0 show ?thesis by (simp add: newParentState_def latestMark_def latestProcessing_def)
qed

lemma reach_keys:
  assumes "run E (NewPartitionMergeTransformation parents) calls = Inr t"
  shows "fst ` set (parentState t) = set parents" and "distinct (map fst (parentState t))"
proof -
  have k: "map fst (parentState t) = map fst (parentState (NewPartitionMergeTransformation parents))"
    by (rule run_keys[OF assms])
  have "fst ` set (parentState t) = set (map fst (parentState t))" by simp
  also have "\<dots> = set parents" unfolding k using New_keys[of parents] by simp
  finally show "fst ` set (parentState t) = set parents" .
  show "distinct (map fst (parentState t))" unfolding k by (rule New_distinct)
qed

lemma reach_lookup:
  assumes "run E (NewPartitionMergeTransformation parents) calls = Inr t"
  shows "p \<in> set parents \<longleftrightarrow> (\<exists>st. map_of (parentState t) p = Some st)"
proof -
  have "p \<in> set parents \<longleftrightarrow> p \<in> fst ` set (parentState t)" using reach_keys(1)[OF assms] by simp
  also have "\<dots> \<longleftrightarrow> p \<in> dom (map_of (parentState t))" by (simp add: dom_map_of_conv_image_fst)
  finally show ?thesis by auto
qed

lemma minTime_is_min:
  assumes "ts \<noteq> []"
  shows "(\<forall>x\<in>set ts. minTime ts MaxInt64 \<le>s x) \<and> minTime ts MaxInt64 \<in> set ts"
proof
  show le: "\<forall>x\<in>set ts. minTime ts MaxInt64 \<le>s x" by (simp add: minTime_le_elem)
  show "minTime ts MaxInt64 \<in> set ts"
  proof (rule ccontr)
    assume n: "minTime ts MaxInt64 \<notin> set ts"
    with minTime_in[of ts MaxInt64] have e: "minTime ts MaxInt64 = MaxInt64" by auto
    from assms obtain x where x: "x \<in> set ts" by (cases ts) auto
    with le e have "MaxInt64 \<le>s x" by auto
    moreover have "x \<le>s MaxInt64" by (rule sle_MaxInt64)
    ultimately have "x = MaxInt64" by (simp add: word_sle_eq signed_word_eqI)
    with x e n show False by simp
  qed
qed

lemma reach_marks:
  assumes r: "run E (NewPartitionMergeTransformation parents) calls = Inr t"
  shows "set (map mark (map snd (parentState t))) = (\<lambda>q. latestMark q calls) ` set parents"
    and "set (map processing (map snd (parentState t))) = (\<lambda>q. latestProcessing q calls) ` set parents"
proof -
  have d: "distinct (map fst (parentState t))" by (rule reach_keys(2)[OF r])
  have k: "fst ` set (parentState t) = set parents" by (rule reach_keys(1)[OF r])
  have *: "\<And>q st. (q, st) \<in> set (parentState t) \<Longrightarrow>
      q \<in> set parents \<and> mark st = latestMark q calls \<and> processing st = latestProcessing q calls"
  proof -
    fix q st assume a: "(q, st) \<in> set (parentState t)"
    then have "map_of (parentState t) q = Some st" using d by simp
    from reach_state[OF r this] a k show
      "q \<in> set parents \<and> mark st = latestMark q calls \<and> processing st = latestProcessing q calls"
      by force
  qed
  have **: "\<And>q. q \<in> set parents \<Longrightarrow> \<exists>st. (q, st) \<in> set (parentState t)"
    using k by force
  show "set (map mark (map snd (parentState t))) = (\<lambda>q. latestMark q calls) ` set parents"
  proof (intro set_eqI iffI)
    fix x assume "x \<in> set (map mark (map snd (parentState t)))"
    then obtain q st where "(q, st) \<in> set (parentState t)" "x = mark st" by auto
    with * show "x \<in> (\<lambda>q. latestMark q calls) ` set parents" by blast
  next
    fix x assume "x \<in> (\<lambda>q. latestMark q calls) ` set parents"
    then obtain q where q: "q \<in> set parents" "x = latestMark q calls" by auto
    from **[OF q(1)] obtain st where s: "(q, st) \<in> set (parentState t)" by blast
    with * q have "x = mark st" by simp
    with s show "x \<in> set (map mark (map snd (parentState t)))" by force
  qed
  show "set (map processing (map snd (parentState t))) = (\<lambda>q. latestProcessing q calls) ` set parents"
  proof (intro set_eqI iffI)
    fix x assume "x \<in> set (map processing (map snd (parentState t)))"
    then obtain q st where "(q, st) \<in> set (parentState t)" "x = processing st" by auto
    with * show "x \<in> (\<lambda>q. latestProcessing q calls) ` set parents" by blast
  next
    fix x assume "x \<in> (\<lambda>q. latestProcessing q calls) ` set parents"
    then obtain q where q: "q \<in> set parents" "x = latestProcessing q calls" by auto
    from **[OF q(1)] obtain st where s: "(q, st) \<in> set (parentState t)" by blast
    with * q have "x = processing st" by simp
    with s show "x \<in> set (map processing (map snd (parentState t)))" by force
  qed
qed

lemma run_then_step:
  "run E t0 calls = Inr t \<Longrightarrow> step E t c = Inr t' \<Longrightarrow> run E t0 (calls @ [c]) = Inr t'"
  by (simp add: run_snoc)

lemma UpdateWatermark_registered:
  assumes "map_of (parentState t) p = Some st"
  shows "\<exists>r t'. UpdateWatermark E t p m = Inr (r, t')
     \<and> dataset t' = dataset t @ [DsUpdateWatermark (minMark (map snd (parentState t')))]"
  using assms by (simp add: UpdateWatermark_def Let_def)

lemma UpdateProcessingTime_registered:
  assumes "map_of (parentState t) p = Some st"
  shows "\<exists>r t'. UpdateProcessingTime E t p m = Inr (r, t')
     \<and> dataset t' = dataset t @ [DsUpdateProcessingTime (minProcessing (map snd (parentState t')))]"
  using assms by (simp add: UpdateProcessingTime_def Let_def)

lemma minimumOver_minTime:
  assumes "ts \<noteq> []" and "set ts = latest ` set parents"
  shows "minimumOver parents latest (minTime ts MaxInt64)"
proof -
  from minTime_is_min[OF assms(1)]
  have a: "\<forall>x\<in>set ts. minTime ts MaxInt64 \<le>s x" and b: "minTime ts MaxInt64 \<in> set ts"
    by blast+
  from a assms(2) have "\<forall>q\<in>set parents. minTime ts MaxInt64 \<le>s latest q" by blast
  moreover from b assms(2) have "\<exists>q\<in>set parents. minTime ts MaxInt64 = latest q" by blast
  ultimately show ?thesis unfolding minimumOver_def by blast
qed

lemma sle_trans: "a \<le>s b \<Longrightarrow> b \<le>s c \<Longrightarrow> a \<le>s c"
  by (simp add: word_sle_eq)

lemma update_set_subset: "set (AList.update k v al) \<subseteq> insert (k, v) (set al)"
  by (induction al) auto

lemma update_same_projection:
  "map_of al k = Some v \<Longrightarrow> f v' = f v \<Longrightarrow> map (f \<circ> snd) (AList.update k v' al) = map (f \<circ> snd) al"
  by (induction al) (auto split: if_splits)

lemma minTime_update_mono:
  assumes "map_of ps p = Some st" and "f st \<le>s m" and "f st' = m"
  shows "minTime (map (f \<circ> snd) ps) MaxInt64
     \<le>s minTime (map (f \<circ> snd) (AList.update p st' ps)) MaxInt64"
proof -
  let ?old = "minTime (map (f \<circ> snd) ps) MaxInt64"
  let ?new = "minTime (map (f \<circ> snd) (AList.update p st' ps)) MaxInt64"
  have "?new \<in> insert MaxInt64 (set (map (f \<circ> snd) (AList.update p st' ps)))"
    by (rule minTime_in)
  then consider "?new = MaxInt64" | "?new = m" | x where "x \<in> set ps" "?new = f (snd x)"
    using update_set_subset[of p st' ps] assms(3) by auto
  then show ?thesis
  proof cases
    case 1
    then show ?thesis by (simp add: minTime_le_init)
  next
    case 2
    have "(p, st) \<in> set ps" using assms(1) by (rule map_of_SomeD)
    then have "f st \<in> set (map (f \<circ> snd) ps)" by force
    then have "?old \<le>s f st" by (rule minTime_le_elem)
    with assms(2) 2 show ?thesis by (auto intro: sle_trans)
  next
    case 3
    then have "f (snd x) \<in> set (map (f \<circ> snd) ps)" by force
    then have "?old \<le>s f (snd x)" by (rule minTime_le_elem)
    with 3 show ?thesis by simp
  qed
qed

lemma sorted_wrt_snoc: "sorted_wrt P (xs @ [x]) \<longleftrightarrow> sorted_wrt P xs \<and> (\<forall>y\<in>set xs. P y x)"
  by (simp add: sorted_wrt_append)

lemma sorted_last_le:
  "sorted_wrt (\<le>s) (a # xs @ [m]) \<Longrightarrow> last (a # xs) \<le>s m"
  by (cases xs rule: rev_cases) (auto simp: sorted_wrt_append)

lemma step_watermarks:
  assumes s: "step E t c = Inr t'"
  shows "(\<exists>p m st. c = CUpdateWatermark p m \<and> map_of (parentState t) p = Some st
            \<and> parentState t' = AList.update p (st\<lparr>mark := m\<rparr>) (parentState t)
            \<and> forwardedWatermarks (dataset t')
                = forwardedWatermarks (dataset t) @ [minMark (map snd (parentState t'))])
       \<or> ((\<forall>p m. c \<noteq> CUpdateWatermark p m)
            \<and> forwardedWatermarks (dataset t') = forwardedWatermarks (dataset t)
            \<and> map (mark \<circ> snd) (parentState t') = map (mark \<circ> snd) (parentState t))"
  using s
  by (cases c)
     (auto simp: Process_def RetractTable_def UpdateWatermark_def UpdateProcessingTime_def
        Finish_def Let_def forwardedWatermarks_def update_same_projection
        split: sum.splits option.splits if_splits prod.splits)

lemma step_processing:
  assumes s: "step E t c = Inr t'"
  shows "(\<exists>p m st. c = CUpdateProcessingTime p m \<and> map_of (parentState t) p = Some st
            \<and> parentState t' = AList.update p (st\<lparr>processing := m\<rparr>) (parentState t)
            \<and> forwardedProcessing (dataset t')
                = forwardedProcessing (dataset t) @ [minProcessing (map snd (parentState t'))])
       \<or> ((\<forall>p m. c \<noteq> CUpdateProcessingTime p m)
            \<and> forwardedProcessing (dataset t') = forwardedProcessing (dataset t)
            \<and> map (processing \<circ> snd) (parentState t') = map (processing \<circ> snd) (parentState t))"
  using s
  by (cases c)
     (auto simp: Process_def RetractTable_def UpdateWatermark_def UpdateProcessingTime_def
        Finish_def Let_def forwardedProcessing_def update_same_projection
        split: sum.splits option.splits if_splits prod.splits)

lemma run_snoc_Inr:
  "run E t0 (cs @ [c]) = Inr t \<Longrightarrow> \<exists>t1. run E t0 cs = Inr t1 \<and> step E t1 c = Inr t"
  by (simp add: run_snoc split: sum.splits)

lemma watermark_invariant:
  "run E (NewPartitionMergeTransformation parents) calls = Inr t \<Longrightarrow>
   \<forall>p\<in>set parents. sorted_wrt (\<le>s) (0 # suppliedMarks p calls) \<Longrightarrow>
   sorted_wrt (\<le>s) (forwardedWatermarks (dataset t))
   \<and> (\<forall>w\<in>set (forwardedWatermarks (dataset t)). w \<le>s minMark (map snd (parentState t)))"
proof (induction calls arbitrary: t rule: rev_induct)
  case Nil
  then show ?case by (auto simp: NewPartitionMergeTransformation_def forwardedWatermarks_def)
next
  case (snoc c cs)
  from run_snoc_Inr[OF snoc.prems(1)] obtain t1 where
    r1: "run E (NewPartitionMergeTransformation parents) cs = Inr t1" and s: "step E t1 c = Inr t"
    by blast
  have pre: "\<forall>p\<in>set parents. sorted_wrt (\<le>s) (0 # suppliedMarks p cs)"
    using snoc.prems(2) by (auto simp: suppliedMarks_append sorted_wrt_append)
  from snoc.IH[OF r1 pre] have
    ih1: "sorted_wrt (\<le>s) (forwardedWatermarks (dataset t1))" and
    ih2: "\<forall>w\<in>set (forwardedWatermarks (dataset t1)). w \<le>s minMark (map snd (parentState t1))"
    by blast+
  from step_watermarks[OF s] show ?case
  proof (elim disjE exE conjE)
    fix p m st
    assume c: "c = CUpdateWatermark p m" and st: "map_of (parentState t1) p = Some st"
      and ps: "parentState t = AList.update p (st\<lparr>mark := m\<rparr>) (parentState t1)"
      and fw: "forwardedWatermarks (dataset t)
                = forwardedWatermarks (dataset t1) @ [minMark (map snd (parentState t))]"
    have p: "p \<in> set parents" using reach_lookup[OF r1] st by blast
    have "mark st = latestMark p cs" using reach_state[OF r1 st] by simp
    moreover have "suppliedMarks p (cs @ [c]) = suppliedMarks p cs @ [m]"
      unfolding c by (simp add: suppliedMarks_def)
    then have "sorted_wrt (\<le>s) (0 # suppliedMarks p cs @ [m])"
      using snoc.prems(2) p by (metis)
    ultimately have le: "mark st \<le>s m" unfolding latestMark_def by (simp only: sorted_last_le)
    have mono: "minMark (map snd (parentState t1)) \<le>s minMark (map snd (parentState t))"
      unfolding minMark_minTime ps map_map
      by (rule minTime_update_mono[where f = mark, OF st le]) simp
    have "\<forall>w\<in>set (forwardedWatermarks (dataset t1)). w \<le>s minMark (map snd (parentState t))"
      using ih2 mono by (blast intro: sle_trans)
    then show ?thesis using ih1 unfolding fw by (simp add: sorted_wrt_append)
  next
    assume fw: "forwardedWatermarks (dataset t) = forwardedWatermarks (dataset t1)"
      and m: "map (mark \<circ> snd) (parentState t) = map (mark \<circ> snd) (parentState t1)"
    have "minMark (map snd (parentState t)) = minMark (map snd (parentState t1))"
      unfolding minMark_minTime map_map m ..
    with ih1 ih2 fw show ?thesis by simp
  qed
qed

lemma processing_invariant:
  "run E (NewPartitionMergeTransformation parents) calls = Inr t \<Longrightarrow>
   \<forall>p\<in>set parents. sorted_wrt (\<le>s) (0 # suppliedProcessing p calls) \<Longrightarrow>
   sorted_wrt (\<le>s) (forwardedProcessing (dataset t))
   \<and> (\<forall>w\<in>set (forwardedProcessing (dataset t)). w \<le>s minProcessing (map snd (parentState t)))"
proof (induction calls arbitrary: t rule: rev_induct)
  case Nil
  then show ?case by (auto simp: NewPartitionMergeTransformation_def forwardedProcessing_def)
next
  case (snoc c cs)
  from run_snoc_Inr[OF snoc.prems(1)] obtain t1 where
    r1: "run E (NewPartitionMergeTransformation parents) cs = Inr t1" and s: "step E t1 c = Inr t"
    by blast
  have pre: "\<forall>p\<in>set parents. sorted_wrt (\<le>s) (0 # suppliedProcessing p cs)"
    using snoc.prems(2) by (auto simp: suppliedProcessing_def sorted_wrt_append)
  from snoc.IH[OF r1 pre] have
    ih1: "sorted_wrt (\<le>s) (forwardedProcessing (dataset t1))" and
    ih2: "\<forall>w\<in>set (forwardedProcessing (dataset t1)). w \<le>s minProcessing (map snd (parentState t1))"
    by blast+
  from step_processing[OF s] show ?case
  proof (elim disjE exE conjE)
    fix p m st
    assume c: "c = CUpdateProcessingTime p m" and st: "map_of (parentState t1) p = Some st"
      and ps: "parentState t = AList.update p (st\<lparr>processing := m\<rparr>) (parentState t1)"
      and fw: "forwardedProcessing (dataset t)
                = forwardedProcessing (dataset t1) @ [minProcessing (map snd (parentState t))]"
    have p: "p \<in> set parents" using reach_lookup[OF r1] st by blast
    have "processing st = latestProcessing p cs" using reach_state[OF r1 st] by simp
    moreover have "suppliedProcessing p (cs @ [c]) = suppliedProcessing p cs @ [m]"
      unfolding c by (simp add: suppliedProcessing_def)
    then have "sorted_wrt (\<le>s) (0 # suppliedProcessing p cs @ [m])"
      using snoc.prems(2) p by (metis)
    ultimately have le: "processing st \<le>s m"
      unfolding latestProcessing_def by (simp only: sorted_last_le)
    have mono: "minProcessing (map snd (parentState t1)) \<le>s minProcessing (map snd (parentState t))"
      unfolding minProcessing_minTime ps map_map
      by (rule minTime_update_mono[where f = processing, OF st le]) simp
    have "\<forall>w\<in>set (forwardedProcessing (dataset t1)). w \<le>s minProcessing (map snd (parentState t))"
      using ih2 mono by (blast intro: sle_trans)
    then show ?thesis using ih1 unfolding fw by (simp add: sorted_wrt_append)
  next
    assume fw: "forwardedProcessing (dataset t) = forwardedProcessing (dataset t1)"
      and m: "map (processing \<circ> snd) (parentState t) = map (processing \<circ> snd) (parentState t1)"
    have "minProcessing (map snd (parentState t)) = minProcessing (map snd (parentState t1))"
      unfolding minProcessing_minTime map_map m ..
    with ih1 ih2 fw show ?thesis by simp
  qed
qed

lemma fold_finished: "fold (\<lambda>state fin. fin \<and> finished state) states b \<longleftrightarrow> b \<and> (\<forall>s\<in>set states. finished s)"
  by (induction states arbitrary: b) auto

lemma allFinished_iff: "allFinished states \<longleftrightarrow> (\<forall>s\<in>set states. finished s)"
  by (simp add: allFinished_def fold_finished)

lemma step_finish:
  assumes "step E t c = Inr t'" and "DsFinish e \<in> set (dataset t')"
  shows "DsFinish e \<in> set (dataset t)
     \<or> (\<exists>p err. c = CFinish p err
          \<and> ((err \<noteq> None \<and> e = err) \<or> (e = None \<and> allFinished (map snd (parentState t')))))"
  using assms
  by (cases c)
     (auto simp: Process_def RetractTable_def UpdateWatermark_def UpdateProcessingTime_def
        Finish_def Let_def split: sum.splits option.splits if_splits prod.splits)

lemma finishedBy_append: "finishedBy p (xs @ ys) \<longleftrightarrow> finishedBy p xs \<or> finishedBy p ys"
  by (auto simp: finishedBy_iff)

lemma finish_invariant:
  "run E (NewPartitionMergeTransformation parents) calls = Inr t \<Longrightarrow>
   DsFinish e \<in> set (dataset t) \<Longrightarrow>
   (e \<noteq> None \<and> (\<exists>p. CFinish p e \<in> set calls))
   \<or> (e = None \<and> (\<forall>p\<in>set parents. finishedBy p calls))"
proof (induction calls arbitrary: t rule: rev_induct)
  case Nil
  then show ?case by (auto simp: NewPartitionMergeTransformation_def)
next
  case (snoc c cs)
  from run_snoc_Inr[OF snoc.prems(1)] obtain t1 where
    r1: "run E (NewPartitionMergeTransformation parents) cs = Inr t1" and s: "step E t1 c = Inr t"
    by blast
  from step_finish[OF s snoc.prems(2)] consider
    (old) "DsFinish e \<in> set (dataset t1)"
    | (err) p where "c = CFinish p e" "e \<noteq> None"
    | (all) "e = None" "allFinished (map snd (parentState t))"
    by blast
  then show ?case
  proof cases
    case old
    from snoc.IH[OF r1 old] show ?thesis by (auto simp: finishedBy_append)
  next
    case err
    then show ?thesis by auto
  next
    case all
    have "\<forall>p\<in>set parents. finishedBy p (cs @ [c])"
    proof
      fix p assume "p \<in> set parents"
      with reach_lookup[OF snoc.prems(1)] obtain st where st: "map_of (parentState t) p = Some st"
        by blast
      then have "(p, st) \<in> set (parentState t)" by (rule map_of_SomeD)
      then have "st \<in> set (map snd (parentState t))" by force
      with all(2) have "finished st" by (simp only: allFinished_iff)
      with reach_state[OF snoc.prems(1) st] show "finishedBy p (cs @ [c])" by simp
    qed
    with all(1) show ?thesis by simp
  qed
qed





lemma Errorf_pow: "errs ((Errorf ^^ n) c) = errs c + int n"
  by (induction n) (auto simp: Errorf_def)

lemma consumeResults_ok:
  "\<forall>r\<in>set rs. tablesErr r = None \<Longrightarrow>
   consumeResults rs i out tr
     = (None, out @ concat (concat (map stringified rs)), tr @ map EvTablesDo [i..<i + length rs])"
proof (induction rs arbitrary: i out tr)
  case Nil then show ?case by simp
next
  case (Cons r rs)
  have "[i..<i + length (r # rs)] = i # [Suc i..<i + length (r # rs)]"
    by (rule upt_conv_Cons) simp
  then have "[i..<i + length (r # rs)] = i # [Suc i..<Suc i + length rs]" by simp
  with Cons show ?case by simp
qed

lemma consumeResults_failed:
  "\<not> (\<forall>r\<in>set rs. tablesErr r = None) \<Longrightarrow>
   \<exists>e out' tr'. consumeResults rs i out tr = (Some e, out', tr')
      \<and> Some e \<in> tablesErr ` set rs \<and> set tr' \<subseteq> set tr \<union> range EvTablesDo"
proof (induction rs arbitrary: i out tr)
  case Nil then show ?case by simp
next
  case (Cons r rs)
  show ?case
  proof (cases "tablesErr r")
    case (Some e)
    then show ?thesis by auto
  next
    case None
    with Cons.prems have "\<not> (\<forall>r\<in>set rs. tablesErr r = None)" by simp
    from Cons.IH[OF this, of "Suc i" "out @ concat (stringified r)" "tr @ [EvTablesDo i]"]
    obtain e out' tr' where
      c: "consumeResults rs (Suc i) (out @ concat (stringified r)) (tr @ [EvTablesDo i]) = (Some e, out', tr')"
      and e: "Some e \<in> tablesErr ` set rs"
      and t: "set tr' \<subseteq> set (tr @ [EvTablesDo i]) \<union> range EvTablesDo"
      by blast
    from t have "set tr' \<subseteq> set tr \<union> range EvTablesDo" by auto
    with c e None show ?thesis by auto
  qed
qed

lemma Run_consumed:
  assumes "resultsConsumed x"
  shows "Run x =
     (if 0 < assertSizeReports x then Some (New FailedPrecondition ''Memory leak detected'')
      else executionError x,
      [EvMarshal, EvInject, EvCompile, EvStart] @ map EvTablesDo [0..<length (queryResults x)]
        @ [EvRelease, EvAssertSize, EvQueryDone, EvSpanFinish])"
proof -
  from assms have a: "marshalErr x = None" "compileErr x = None" "startErr x = None"
    "\<forall>r\<in>set (queryResults x). tablesErr r = None"
    by (simp_all add: resultsConsumed_def)
  have c: "consumeResults (queryResults x) 0 [] [EvMarshal, EvInject, EvCompile, EvStart]
     = (None, concat (concat (map stringified (queryResults x))),
        [EvMarshal, EvInject, EvCompile, EvStart] @ map EvTablesDo [0..<length (queryResults x)])"
    using consumeResults_ok[OF a(4), of 0 "[]" "[EvMarshal, EvInject, EvCompile, EvStart]"] by simp
  show ?thesis
    unfolding Run_def a c by (simp add: Let_def Errorf_pow executionError_def)
qed

lemma Run_not_consumed:
  assumes "\<not> resultsConsumed x"
  shows "EvAssertSize \<notin> set (snd (Run x)) \<and> fst (Run x) \<noteq> None"
proof (cases "marshalErr x")
  case (Some e) then show ?thesis by (simp add: Run_def)
next
  case m: None
  show ?thesis
  proof (cases "compileErr x")
    case (Some e) with m show ?thesis by (simp add: Run_def)
  next
    case c: None
    show ?thesis
    proof (cases "startErr x")
      case (Some e) with m c show ?thesis by (simp add: Run_def)
    next
      case s: None
      with m c assms have "\<not> (\<forall>r\<in>set (queryResults x). tablesErr r = None)"
        by (simp add: resultsConsumed_def)
      from consumeResults_failed[OF this, of 0 "[]" "[EvMarshal, EvInject, EvCompile, EvStart]"]
      obtain e out' tr' where
        r: "consumeResults (queryResults x) 0 [] [EvMarshal, EvInject, EvCompile, EvStart] = (Some e, out', tr')"
        and t: "set tr' \<subseteq> set [EvMarshal, EvInject, EvCompile, EvStart] \<union> range EvTablesDo"
        by blast
      from t have "EvAssertSize \<notin> set tr'" by auto
      with m c s r show ?thesis by (simp add: Run_def)
    qed
  qed
qed

lemma firstError_None: "firstError f xs = None \<longleftrightarrow> (\<forall>x\<in>set xs. f x = None)"
  by (induction xs) (auto split: option.splits)

lemma firstError_Some: "firstError f xs = Some err \<Longrightarrow> \<exists>x\<in>set xs. f x = Some err"
  by (induction xs) (auto split: option.splits)

lemma checkRequired_None:
  "checkRequired pred succ rs = None
     \<longleftrightarrow> (\<forall>r\<in>set rs. map_of (OutputAttrs pred) (fst r) = Some (snd r))"
  by (induction rs) (auto split: option.splits if_splits)

lemma checkRequired_Some:
  "checkRequired pred succ rs = Some err \<Longrightarrow>
   \<exists>r\<in>set rs.
      (map_of (OutputAttrs pred) (fst r) = None
         \<and> err = MissingFromPredecessor (fst r) (ID succ) (ID pred))
      \<or> (\<exists>out. map_of (OutputAttrs pred) (fst r) = Some out \<and> out \<noteq> snd r
         \<and> err = DoesNotMatchPredecessor (fst r) (ID succ) (ID pred))"
  by (induction rs) (auto split: option.splits if_splits)

lemma checkOutputs_None:
  "checkOutputs pred succ outs = None
     \<longleftrightarrow> (\<forall>out\<in>set outs. SuccessorsMustRequire (snd out)
            \<longrightarrow> map_of (RequiredAttrs succ) (fst out) \<noteq> None)"
  by (induction outs) (auto split: if_splits)

lemma checkOutputs_Some:
  "checkOutputs pred succ outs = Some err \<Longrightarrow>
   \<exists>out\<in>set outs. SuccessorsMustRequire (snd out) \<and> map_of (RequiredAttrs succ) (fst out) = None
      \<and> err = NotRequiredBySuccessor (fst out) (ID pred) (ID succ)"
  by (induction outs) (auto split: if_splits)

lemma checkEdge_None:
  "checkEdge e = None \<longleftrightarrow>
     (\<forall>r\<in>set (RequiredAttrs (snd e)). map_of (OutputAttrs (fst e)) (fst r) = Some (snd r))
     \<and> (\<forall>out\<in>set (OutputAttrs (fst e)). SuccessorsMustRequire (snd out)
            \<longrightarrow> map_of (RequiredAttrs (snd e)) (fst out) \<noteq> None)"
proof (cases "checkRequired (fst e) (snd e) (RequiredAttrs (snd e))")
  case None
  then show ?thesis
    using checkRequired_None[of "fst e" "snd e" "RequiredAttrs (snd e)"]
      checkOutputs_None[of "fst e" "snd e" "OutputAttrs (fst e)"]
    by (simp add: checkEdge_def)
next
  case (Some err)
  then show ?thesis
    using checkRequired_None[of "fst e" "snd e" "RequiredAttrs (snd e)"]
    by (simp add: checkEdge_def)
qed

section \<open>The minimum rule for watermarks and processing times\<close>

text \<open>
  C1, as amended. After any run of calls from the parents given at construction, a further
  \<open>UpdateWatermark\<close> (\<open>UpdateProcessingTime\<close>) from a registered parent does not panic and
  forwards exactly one value to the dataset: the minimum, over all registered parents, of
  the latest value each has supplied, counting 0 for a parent that has supplied none yet.
\<close>

theorem forwarded_minimum_of_latest:
  assumes r: "run E (NewPartitionMergeTransformation parents) calls = Inr t"
    and p: "p \<in> set parents"
  shows "(case UpdateWatermark E t p m of
            Inl _ \<Rightarrow> False
          | Inr (r, t') \<Rightarrow> \<exists>w. dataset t' = dataset t @ [DsUpdateWatermark w]
              \<and> minimumOver parents (\<lambda>q. latestMark q (calls @ [CUpdateWatermark p m])) w)
       \<and> (case UpdateProcessingTime E t p m of
            Inl _ \<Rightarrow> False
          | Inr (r, t') \<Rightarrow> \<exists>w. dataset t' = dataset t @ [DsUpdateProcessingTime w]
              \<and> minimumOver parents (\<lambda>q. latestProcessing q (calls @ [CUpdateProcessingTime p m])) w)"
proof
  from reach_lookup[OF r] p obtain st where st: "map_of (parentState t) p = Some st" by blast
  have ne: "parents \<noteq> []" using p by auto
  {
    from UpdateWatermark_registered[OF st] obtain rr t' where
      u: "UpdateWatermark E t p m = Inr (rr, t')"
      and d: "dataset t' = dataset t @ [DsUpdateWatermark (minMark (map snd (parentState t')))]"
      by blast
    let ?calls = "calls @ [CUpdateWatermark p m]"
    have "step E t (CUpdateWatermark p m) = Inr t'" using u by simp
    from run_then_step[OF r this] have r': "run E (NewPartitionMergeTransformation parents) ?calls = Inr t'" .
    let ?ts = "map mark (map snd (parentState t'))"
    have s: "set ?ts = (\<lambda>q. latestMark q ?calls) ` set parents" by (rule reach_marks(1)[OF r'])
    then have "?ts \<noteq> []" using ne by auto
    from minimumOver_minTime[OF this s]
    have "minimumOver parents (\<lambda>q. latestMark q ?calls) (minMark (map snd (parentState t')))"
      unfolding minMark_minTime .
    with u d show "case UpdateWatermark E t p m of
            Inl _ \<Rightarrow> False
          | Inr (r, t') \<Rightarrow> \<exists>w. dataset t' = dataset t @ [DsUpdateWatermark w]
              \<and> minimumOver parents (\<lambda>q. latestMark q (calls @ [CUpdateWatermark p m])) w"
      by auto
  }
  {
    from UpdateProcessingTime_registered[OF st] obtain rr t' where
      u: "UpdateProcessingTime E t p m = Inr (rr, t')"
      and d: "dataset t' = dataset t @ [DsUpdateProcessingTime (minProcessing (map snd (parentState t')))]"
      by blast
    let ?calls = "calls @ [CUpdateProcessingTime p m]"
    have "step E t (CUpdateProcessingTime p m) = Inr t'" using u by simp
    from run_then_step[OF r this] have r': "run E (NewPartitionMergeTransformation parents) ?calls = Inr t'" .
    let ?ts = "map processing (map snd (parentState t'))"
    have s: "set ?ts = (\<lambda>q. latestProcessing q ?calls) ` set parents" by (rule reach_marks(2)[OF r'])
    then have "?ts \<noteq> []" using ne by auto
    from minimumOver_minTime[OF this s]
    have "minimumOver parents (\<lambda>q. latestProcessing q ?calls) (minProcessing (map snd (parentState t')))"
      unfolding minProcessing_minTime .
    with u d show "case UpdateProcessingTime E t p m of
            Inl _ \<Rightarrow> False
          | Inr (r, t') \<Rightarrow> \<exists>w. dataset t' = dataset t @ [DsUpdateProcessingTime w]
              \<and> minimumOver parents (\<lambda>q. latestProcessing q (calls @ [CUpdateProcessingTime p m])) w"
      by auto
  }
qed

text \<open>C1, witness: parents 1 and 2, parent 1 has supplied 10, then parent 2 supplies 7.\<close>

theorem forwarded_minimum_of_latest_witness:
  "run quietCollaborators (NewPartitionMergeTransformation [1::nat, 2]) [CUpdateWatermark 1 10]
     = Inr \<lparr>dataset = [DsUpdateWatermark 0],
            parentState = [(1, \<lparr>mark = 10, processing = 0, finished = False\<rparr>),
                           (2, \<lparr>mark = 0, processing = 0, finished = False\<rparr>)]\<rparr>
   \<and> (2::nat) \<in> set [1, 2]
   \<and> (case UpdateWatermark quietCollaborators
             \<lparr>dataset = [DsUpdateWatermark 0],
              parentState = [(1::nat, \<lparr>mark = 10, processing = 0, finished = False\<rparr>),
                             (2, \<lparr>mark = 0, processing = 0, finished = False\<rparr>)]\<rparr> 2 7 of
         Inl _ \<Rightarrow> False
       | Inr (r, t') \<Rightarrow> \<exists>w. dataset t'
             = dataset \<lparr>dataset = [DsUpdateWatermark 0],
                 parentState = [(1::nat, \<lparr>mark = 10, processing = 0, finished = False\<rparr>),
                                (2, \<lparr>mark = 0, processing = 0, finished = False\<rparr>)]\<rparr>
               @ [DsUpdateWatermark w]
           \<and> minimumOver [1::nat, 2]
               (\<lambda>q. latestMark q ([CUpdateWatermark 1 10] @ [CUpdateWatermark 2 7])) w)"
proof -
  have h1: "run quietCollaborators (NewPartitionMergeTransformation [1::nat, 2]) [CUpdateWatermark 1 10]
     = Inr \<lparr>dataset = [DsUpdateWatermark 0],
            parentState = [(1, \<lparr>mark = 10, processing = 0, finished = False\<rparr>),
                           (2, \<lparr>mark = 0, processing = 0, finished = False\<rparr>)]\<rparr>"
    by code_simp
  have h2: "(2::nat) \<in> set [1, 2]" by simp
  from forwarded_minimum_of_latest[OF h1 h2, where m = 7] h1 h2 show ?thesis by blast
qed

text \<open>
  C1, counterexample to the claim as stated: with parents 1 and 2, after the single call
  \<open>UpdateWatermark(1, 10)\<close> the dataset receives 0, which is not the minimum of the values
  supplied so far (only 10 has been supplied).
\<close>

theorem forwarded_minimum_counterexample:
  "map_sum (\<lambda>p. p) dataset
     (run quietCollaborators (NewPartitionMergeTransformation [1::nat, 2]) [CUpdateWatermark 1 10])
     = Inr [DsUpdateWatermark 0]
   \<and> \<not> minimumOfSupplied [1::nat, 2] [CUpdateWatermark 1 10] 0"
  by code_simp

section \<open>Monotonicity of the forwarded values\<close>

text \<open>
  C6, as amended. If every parent supplies watermarks that are non-negative and
  non-decreasing (the sequence 0, then its values, is sorted in the signed order), the
  watermarks forwarded to the dataset are non-decreasing; likewise for processing times.
\<close>

theorem forwarded_nondecreasing:
  assumes "run E (NewPartitionMergeTransformation parents) calls = Inr t"
  shows "((\<forall>p\<in>set parents. sorted_wrt (\<le>s) (0 # suppliedMarks p calls))
            \<longrightarrow> sorted_wrt (\<le>s) (forwardedWatermarks (dataset t)))
       \<and> ((\<forall>p\<in>set parents. sorted_wrt (\<le>s) (0 # suppliedProcessing p calls))
            \<longrightarrow> sorted_wrt (\<le>s) (forwardedProcessing (dataset t)))"
  using watermark_invariant[OF assms] processing_invariant[OF assms] by blast

text \<open>C6, witness: two parents supplying non-decreasing watermarks and processing times.\<close>

theorem forwarded_nondecreasing_witness:
  "run quietCollaborators (NewPartitionMergeTransformation [1::nat, 2])
       [CUpdateWatermark 1 5, CUpdateProcessingTime 2 4, CUpdateWatermark 2 3, CUpdateWatermark 1 8,
        CUpdateProcessingTime 1 6]
     = Inr \<lparr>dataset = [DsUpdateWatermark 0, DsUpdateProcessingTime 0, DsUpdateWatermark 3,
                       DsUpdateWatermark 3, DsUpdateProcessingTime 4],
            parentState = [(1, \<lparr>mark = 8, processing = 6, finished = False\<rparr>),
                           (2, \<lparr>mark = 3, processing = 4, finished = False\<rparr>)]\<rparr>
   \<and> suppliedMarks (1::nat)
          [CUpdateWatermark 1 5, CUpdateProcessingTime 2 4, CUpdateWatermark 2 3, CUpdateWatermark 1 8,
           CUpdateProcessingTime 1 6] = [5, 8]
   \<and> sorted_wrt (\<le>s) (forwardedWatermarks [DsUpdateWatermark 0, DsUpdateProcessingTime 0,
          DsUpdateWatermark 3, DsUpdateWatermark 3, DsUpdateProcessingTime 4])
   \<and> sorted_wrt (\<le>s) (forwardedProcessing [DsUpdateWatermark 0, DsUpdateProcessingTime 0,
          DsUpdateWatermark 3, DsUpdateWatermark 3, DsUpdateProcessingTime 4])"
proof -
  let ?calls = "[CUpdateWatermark 1 5, CUpdateProcessingTime 2 4, CUpdateWatermark 2 3,
                 CUpdateWatermark 1 8, CUpdateProcessingTime (1::nat) 6]"
  have h1: "run quietCollaborators (NewPartitionMergeTransformation [1::nat, 2]) ?calls
     = Inr \<lparr>dataset = [DsUpdateWatermark 0, DsUpdateProcessingTime 0, DsUpdateWatermark 3,
                       DsUpdateWatermark 3, DsUpdateProcessingTime 4],
            parentState = [(1, \<lparr>mark = 8, processing = 6, finished = False\<rparr>),
                           (2, \<lparr>mark = 3, processing = 4, finished = False\<rparr>)]\<rparr>"
    by code_simp
  have h2: "\<forall>p\<in>set [1::nat, 2]. sorted_wrt (\<le>s) (0 # suppliedMarks p ?calls)"
    by code_simp
  have h3: "\<forall>p\<in>set [1::nat, 2]. sorted_wrt (\<le>s) (0 # suppliedProcessing p ?calls)"
    by code_simp
  have h4: "suppliedMarks (1::nat) ?calls = [5, 8]" by code_simp
  from forwarded_nondecreasing[OF h1] h1 h2 h3 h4 show ?thesis by simp
qed

text \<open>
  C6, counterexample to the claim as stated: parent 1 supplies 10 and later 5; the dataset
  receives 0, 10, 5.
\<close>

theorem forwarded_nondecreasing_counterexample:
  "map_sum (\<lambda>p. p) (\<lambda>t. forwardedWatermarks (dataset t))
     (run quietCollaborators (NewPartitionMergeTransformation [1::nat, 2])
        [CUpdateWatermark 1 10, CUpdateWatermark 2 10, CUpdateWatermark 1 5])
     = Inr [0, 10, 5]
   \<and> \<not> sorted_wrt (\<le>s) [0, 10, 5 :: Time]"
  by code_simp

section \<open>Fan-in completion\<close>

text \<open>
  C2. In a run in which every \<open>Finish\<close> call carries a nil error, whenever the dataset has
  received a \<open>Finish\<close>, it is \<open>Finish(nil)\<close> and every parent registered at construction has
  called \<open>Finish(id, nil)\<close>. The run is arbitrary, so this holds after each of its calls.
\<close>

theorem no_finish_before_all_parents:
  assumes "run E (NewPartitionMergeTransformation parents) calls = Inr t"
    and "\<forall>p err. CFinish p err \<in> set calls \<longrightarrow> err = None"
    and "DsFinish e \<in> set (dataset t)"
  shows "e = None \<and> (\<forall>p\<in>set parents. CFinish p None \<in> set calls)"
proof -
  from finish_invariant[OF assms(1,3)] assms(2)
  have e: "e = None" and a: "\<forall>p\<in>set parents. finishedBy p calls" by blast+
  have "\<forall>p\<in>set parents. CFinish p None \<in> set calls"
  proof
    fix p assume "p \<in> set parents"
    with a obtain err where "CFinish p err \<in> set calls" unfolding finishedBy_iff by blast
    with assms(2) show "CFinish p None \<in> set calls" by blast
  qed
  with e show ?thesis by blast
qed

text \<open>C2, witness: parents 1 and 2 finish, in the order 2, 1.\<close>

theorem no_finish_before_all_parents_witness:
  "run quietCollaborators (NewPartitionMergeTransformation [1::nat, 2]) [CFinish 2 None, CFinish 1 None]
     = Inr \<lparr>dataset = [DsFinish None],
            parentState = [(1, \<lparr>mark = 0, processing = 0, finished = True\<rparr>),
                           (2, \<lparr>mark = 0, processing = 0, finished = True\<rparr>)]\<rparr>
   \<and> DsFinish None \<in> set [DsFinish None]
   \<and> CFinish (1::nat) None \<in> set [CFinish 2 None, CFinish 1 None]
   \<and> CFinish (2::nat) None \<in> set [CFinish 2 None, CFinish 1 None]"
proof -
  have h1: "run quietCollaborators (NewPartitionMergeTransformation [1::nat, 2])
       [CFinish 2 None, CFinish 1 None]
     = Inr \<lparr>dataset = [DsFinish None],
            parentState = [(1, \<lparr>mark = 0, processing = 0, finished = True\<rparr>),
                           (2, \<lparr>mark = 0, processing = 0, finished = True\<rparr>)]\<rparr>"
    by code_simp
  have h2: "\<forall>p err. CFinish p err \<in> set [CFinish 2 None, CFinish (1::nat) None] \<longrightarrow> err = None"
    by simp
  have h3: "DsFinish None \<in> set (dataset \<lparr>dataset = [DsFinish None],
            parentState = [(1::nat, \<lparr>mark = 0, processing = 0, finished = True\<rparr>),
                           (2, \<lparr>mark = 0, processing = 0, finished = True\<rparr>)]\<rparr>)"
    by simp
  from no_finish_before_all_parents[OF h1 h2 h3] h1 h2 show ?thesis by simp
qed

text \<open>
  C3, the code at the failing input: with parents 1 and 2, after \<open>Finish(2, nil)\<close> the call
  \<open>Finish(1, err)\<close> sends the dataset \<open>Finish(err)\<close> and then also \<open>Finish(nil)\<close>, since the
  error branch does not return and all parents are then marked finished.
\<close>

theorem Finish_error_then_nil:
  "map_sum (\<lambda>p. p) dataset
     (run quietCollaborators (NewPartitionMergeTransformation [1::nat, 2])
        [CFinish 2 None, CFinish 1 (Some (New Internal ''boom''))])
   = Inr [DsFinish (Some (New Internal ''boom'')), DsFinish None]"
  by code_simp

section \<open>Pass-through of tables and retractions\<close>




text \<open>
  C7. \<open>RetractTable\<close> sends the dataset exactly the given group key, returns the dataset's
  answer unchanged, and leaves the parent-state map as it was.
\<close>

theorem RetractTable_passes_through:
  "fst (RetractTable E t p key) = dsReply E (dataset t) (DsRetractTable key)
   \<and> dataset (snd (RetractTable E t p key)) = dataset t @ [DsRetractTable key]
   \<and> parentState (snd (RetractTable E t p key)) = parentState t"
  by (simp add: RetractTable_def)

section \<open>The registered parents\<close>

text \<open>
  C9. After any run from construction, the keys of the parent-state map are exactly the
  parent ids given at construction, and \<open>UpdateWatermark\<close>, \<open>UpdateProcessingTime\<close> and
  \<open>Finish\<close> panic with a nil dereference exactly for a parent id that is not among them.
\<close>

theorem registered_keys_fixed:
  assumes "run E (NewPartitionMergeTransformation parents) calls = Inr t"
  shows "fst ` set (parentState t) = set parents
     \<and> (UpdateWatermark E t p m = Inl NilPointerDereference \<longleftrightarrow> p \<notin> set parents)
     \<and> (UpdateProcessingTime E t p m = Inl NilPointerDereference \<longleftrightarrow> p \<notin> set parents)
     \<and> (Finish t p err = Inl NilPointerDereference \<longleftrightarrow> p \<notin> set parents)"
  using reach_keys(1)[OF assms] reach_lookup[OF assms, of p]
  by (auto simp: UpdateWatermark_def UpdateProcessingTime_def Finish_def Let_def
        split: option.splits)

text \<open>C9, witness: parents 1 and 2; a call from 3 panics.\<close>

theorem registered_keys_fixed_witness:
  "run quietCollaborators (NewPartitionMergeTransformation [1::nat, 2]) [CUpdateWatermark 1 10]
     = Inr \<lparr>dataset = [DsUpdateWatermark 0],
            parentState = [(1, \<lparr>mark = 10, processing = 0, finished = False\<rparr>),
                           (2, \<lparr>mark = 0, processing = 0, finished = False\<rparr>)]\<rparr>
   \<and> fst ` set [(1::nat, \<lparr>mark = 10, processing = 0, finished = False\<rparr>),
                 (2, \<lparr>mark = 0, processing = 0, finished = False\<rparr>)] = set [1, 2]
   \<and> Finish \<lparr>dataset = [DsUpdateWatermark 0],
            parentState = [(1::nat, \<lparr>mark = 10, processing = 0, finished = False\<rparr>),
                           (2, \<lparr>mark = 0, processing = 0, finished = False\<rparr>)]\<rparr> 3 None
       = Inl NilPointerDereference"
proof -
  have h1: "run quietCollaborators (NewPartitionMergeTransformation [1::nat, 2]) [CUpdateWatermark 1 10]
     = Inr \<lparr>dataset = [DsUpdateWatermark 0],
            parentState = [(1, \<lparr>mark = 10, processing = 0, finished = False\<rparr>),
                           (2, \<lparr>mark = 0, processing = 0, finished = False\<rparr>)]\<rparr>"
    by code_simp
  from registered_keys_fixed[OF h1, where p = 3 and err = None] h1 show ?thesis by simp
qed

section \<open>The leak check of the test executor\<close>

text \<open>
  C8. \<open>Run\<close> asks the allocator for unreleased memory exactly when all result streams were
  consumed, and then after the last of them and after \<open>Release\<close>; if the check reports
  anything, \<open>Run\<close> returns the error ``Memory leak detected'', whatever the execution
  returned; if it reports nothing, \<open>Run\<close> returns the error of the execution unchanged.
\<close>

theorem Run_leak_check_after_results:
  "(EvAssertSize \<in> set (snd (Run x)) \<longleftrightarrow> resultsConsumed x)
   \<and> (resultsConsumed x \<longrightarrow>
        snd (Run x) = [EvMarshal, EvInject, EvCompile, EvStart]
          @ map EvTablesDo [0..<length (queryResults x)]
          @ [EvRelease, EvAssertSize, EvQueryDone, EvSpanFinish])
   \<and> (resultsConsumed x \<and> 0 < assertSizeReports x \<longrightarrow>
        fst (Run x) = Some (New FailedPrecondition ''Memory leak detected''))
   \<and> (resultsConsumed x \<and> assertSizeReports x = 0 \<longrightarrow> fst (Run x) = executionError x)"
proof (cases "resultsConsumed x")
  case True
  from Run_consumed[OF True] True show ?thesis by simp
next
  case False
  from Run_not_consumed[OF False] False show ?thesis by simp
qed

text \<open>C8, witness: two results consumed, a failed query and two leak reports.\<close>

theorem Run_leak_check_after_results_witness:
  "resultsConsumed \<lparr>marshalErr = None, compileErr = None, startErr = None,
        queryResults = [\<lparr>stringified = [], tablesErr = None\<rparr>, \<lparr>stringified = [], tablesErr = None\<rparr>],
        resultsErr = Some (New Internal ''query failed''), assertSizeReports = 2\<rparr>
   \<and> Run \<lparr>marshalErr = None, compileErr = None, startErr = None,
        queryResults = [\<lparr>stringified = [], tablesErr = None\<rparr>, \<lparr>stringified = [], tablesErr = None\<rparr>],
        resultsErr = Some (New Internal ''query failed''), assertSizeReports = 2\<rparr>
     = (Some (New FailedPrecondition ''Memory leak detected''),
        [EvMarshal, EvInject, EvCompile, EvStart, EvTablesDo 0, EvTablesDo 1, EvRelease, EvAssertSize,
         EvQueryDone, EvSpanFinish])"
proof -
  let ?x = "\<lparr>marshalErr = None, compileErr = None, startErr = None,
        queryResults = [\<lparr>stringified = [], tablesErr = None\<rparr>, \<lparr>stringified = [], tablesErr = None\<rparr>],
        resultsErr = Some (New Internal ''query failed''), assertSizeReports = 2\<rparr>"
  have h: "resultsConsumed ?x" by (simp add: resultsConsumed_def)
  have u: "[0..<2] = [0, Suc 0]" by (simp add: upt_rec)
  from Run_leak_check_after_results[of ?x] h u show ?thesis
    by (simp add: prod_eq_iff)
qed

section \<open>SynthesisTo\<close>

text \<open>
  C10. \<open>SynthesisTo\<close> returns nil and appends exactly four opcodes behind the code emitted
  before, which it leaves unchanged: \<open>IN_CONS_SIDE_EFFECTS\<close>, \<open>IN_LOAD_VALUE\<close> with the side
  effect's value, \<open>IN_APPEND_SIDE_EFFECT\<close> with its node, \<open>IN_PROGRAM_START\<close>.
\<close>

theorem SynthesisTo_appends_four:
  "SynthesisTo B itrp sideEffect =
     (None,
      itrp\<lparr>code := code itrp @
        [\<lparr>In = IN_CONS_SIDE_EFFECTS B, Args = IntArg 0\<rparr>,
         \<lparr>In = IN_LOAD_VALUE B, Args = LoadValue (Value sideEffect)\<rparr>,
         \<lparr>In = IN_APPEND_SIDE_EFFECT B, Args = AppendSideEffect (Node sideEffect)\<rparr>,
         \<lparr>In = IN_PROGRAM_START B, Args = IntArg 0\<rparr>]\<rparr>)
   \<and> length (code (snd (SynthesisTo B itrp sideEffect))) = length (code itrp) + 4
   \<and> take (length (code itrp)) (code (snd (SynthesisTo B itrp sideEffect))) = code itrp"
  by (simp add: SynthesisTo_def appendCode_def Let_def)

section \<open>Attribute validation: the claim\<close>

text \<open>
  C4, as amended. Validation returns nil exactly for the plans in which, on every edge,
  each attribute the successor requires is matched by an equal output attribute of the
  predecessor and each output attribute of the predecessor that obliges its successors
  (parallel-run, not parallel-merge) is required by the successor; otherwise it returns
  one of three errors, naming the key and the two node ids of a violation that is there:
  missing from the predecessor, not required by a successor, or unequal values.
\<close>

theorem ValidateAttributes_sound:
  "(ValidateAttributes plan = None \<longleftrightarrow> requiredMatched plan \<and> obligingOutputsRequired plan)
   \<and> (\<forall>err. ValidateAttributes plan = Some err \<longrightarrow> violation plan err)"
proof
  show "ValidateAttributes plan = None \<longleftrightarrow> requiredMatched plan \<and> obligingOutputsRequired plan"
    unfolding ValidateAttributes_def firstError_None checkEdge_None requiredMatched_def
      obligingOutputsRequired_def by blast
  show "\<forall>err. ValidateAttributes plan = Some err \<longrightarrow> violation plan err"
  proof (intro allI impI)
    fix err assume "ValidateAttributes plan = Some err"
    then obtain e where e: "e \<in> set (edgesOf plan)" and c: "checkEdge e = Some err"
      unfolding ValidateAttributes_def by (blast dest: firstError_Some)
    show "violation plan err"
    proof (cases "checkRequired (fst e) (snd e) (RequiredAttrs (snd e))")
      case None
      with c have "checkOutputs (fst e) (snd e) (OutputAttrs (fst e)) = Some err"
        by (simp add: checkEdge_def)
      from checkOutputs_Some[OF this] e show ?thesis unfolding violation_def by blast
    next
      case (Some err')
      with c have "err' = err" by (simp add: checkEdge_def)
      with Some have "checkRequired (fst e) (snd e) (RequiredAttrs (snd e)) = Some err" by simp
      from checkRequired_Some[OF this] e show ?thesis unfolding violation_def by blast
    qed
  qed
qed

text \<open>
  C4, witness: the plan \<open>from-missing-output\<close> of the test is rejected with the error the
  test expects, and \<open>parallel-from-filter\<close> is accepted.
\<close>

theorem ValidateAttributes_sound_witness:
  \<open>ValidateAttributes fromMissingOutput
     = Some (MissingFromPredecessor ''parallel-run'' ''filter'' ''from-test'')
   \<and> violation fromMissingOutput (MissingFromPredecessor ''parallel-run'' ''filter'' ''from-test'')
   \<and> \<not> (requiredMatched fromMissingOutput \<and> obligingOutputsRequired fromMissingOutput)
   \<and> ValidateAttributes parallelFromFilter = None
   \<and> requiredMatched parallelFromFilter
   \<and> obligingOutputsRequired parallelFromFilter\<close>
proof -
  have h1: "ValidateAttributes fromMissingOutput
     = Some (MissingFromPredecessor ''parallel-run'' ''filter'' ''from-test'')"
    by code_simp
  have h2: "ValidateAttributes parallelFromFilter = None"
    by code_simp
  from ValidateAttributes_sound[of fromMissingOutput] ValidateAttributes_sound[of parallelFromFilter]
    h1 h2 show ?thesis by simp
qed

text \<open>
  C4, counterexample to the claim as stated: the plan \<open>parallel-from\<close> of the test is
  accepted although no successor of \<open>merge\<close> requires its parallel-merge output.
\<close>

theorem ValidateAttributes_counterexample:
  "ValidateAttributes parallelFrom = None \<and> \<not> allOutputsRequired parallelFrom"
  by code_simp

text \<open>The five plans of the test give the results and the messages the test expects.\<close>

lemma ValidateAttributes_fixtures:
  \<open>map_option errorMessage (ValidateAttributes parallelFrom) = None
   \<and> map_option errorMessage (ValidateAttributes parallelFromFilter) = None
   \<and> map_option errorMessage (ValidateAttributes fromMissingOutput)
       = Some (''invalid physical query plan; attribute "parallel-run" ''
               @ ''required by "filter" is missing from predecessor "from-test"'')
   \<and> map_option errorMessage (ValidateAttributes fromMissingRequired)
       = Some (''invalid physical query plan; attribute "parallel-run" ''
               @ ''on "from-test" must be required by all successors, but isn'' @ [CHR 0x27]
               @ ''t on "filter"'')
   \<and> map_option errorMessage (ValidateAttributes fromFactorMismatch)
       = Some (''invalid physical query plan; attribute "parallel-run" ''
               @ ''required by "filter" does not match attribute in predecessor "from-test"'')\<close>
  by code_simp

end
